theory Spec2Isabelle
  imports Main "HOL-Library.Word" "HOL-Library.Product_Lexorder" "HOL-Library.Multiset"
begin

unbundle bit_operations_syntax

section \<open>SHA-1 as used through \<open>hashlib.sha1\<close>\<close>

text \<open>
  \<open>fingerprint.py\<close> calls \<open>hashlib.sha1()\<close>, \<open>update\<close> and \<open>hexdigest\<close>.  The
  digest is the FIPS 180 function on bytes: padding to a multiple of 64 bytes, eighty
  rounds per block on five 32-bit words (addition wraps), and a lowercase hexadecimal
  rendering of the five words, most significant nibble first.
\<close>

type_synonym sha1_state = "32 word \<times> 32 word \<times> 32 word \<times> 32 word \<times> 32 word"

definition sha1_pad :: "8 word list \<Rightarrow> 8 word list" where
  "sha1_pad msg =
     (let ml = (word_of_nat (8 * length msg) :: 64 word);
          k = (119 - length msg mod 64) mod 64
      in msg @ [0x80] @ replicate k 0 @
         map (\<lambda>i. ucast (drop_bit (8 * (7 - i)) ml)) [0..<8])"

fun be_words :: "8 word list \<Rightarrow> 32 word list" where
  "be_words (b0 # b1 # b2 # b3 # bs) =
     (push_bit 24 (ucast b0) OR push_bit 16 (ucast b1) OR push_bit 8 (ucast b2) OR ucast b3)
       # be_words bs"
| "be_words _ = []"

definition sha1_f :: "nat \<Rightarrow> 32 word \<Rightarrow> 32 word \<Rightarrow> 32 word \<Rightarrow> 32 word" where
  "sha1_f t b c d =
     (if t < 20 then (b AND c) OR (NOT b AND d)
      else if t < 40 then b XOR c XOR d
      else if t < 60 then (b AND c) OR (b AND d) OR (c AND d)
      else b XOR c XOR d)"

definition sha1_k :: "nat \<Rightarrow> 32 word" where
  "sha1_k t =
     (if t < 20 then 0x5A827999 else if t < 40 then 0x6ED9EBA1
      else if t < 60 then 0x8F1BBCDC else 0xCA62C1D6)"

definition rotl32 :: "nat \<Rightarrow> 32 word \<Rightarrow> 32 word" where
  "rotl32 n w = push_bit n w OR drop_bit (32 - n) w"

fun sha1_round :: "32 word list \<times> sha1_state \<Rightarrow> nat \<Rightarrow> 32 word list \<times> sha1_state" where
  "sha1_round (w, a, b, c, d, e) t =
     (let wt = w ! 0;
          w' = tl w @ [rotl32 1 (w ! 13 XOR w ! 8 XOR w ! 2 XOR w ! 0)];
          temp = rotl32 5 a + sha1_f t b c d + e + sha1_k t + wt
      in (w', temp, a, rotl32 30 b, c, d))"

text \<open>\<open>sha1_rounds n t s\<close>: the \<open>n\<close> rounds \<open>t, t + 1, \<dots>\<close> from the state \<open>s\<close>.\<close>

fun sha1_rounds ::
  "nat \<Rightarrow> nat \<Rightarrow> 32 word list \<times> sha1_state \<Rightarrow> 32 word list \<times> sha1_state" where
  "sha1_rounds 0 t s = s"
| "sha1_rounds (Suc n) t s = sha1_rounds n (t + 1) (sha1_round s t)"

fun sha1_block :: "sha1_state \<Rightarrow> 32 word list \<Rightarrow> sha1_state" where
  "sha1_block (h0, h1, h2, h3, h4) w =
     (case snd (sha1_rounds 80 0 (w, h0, h1, h2, h3, h4)) of
        (a, b, c, d, e) \<Rightarrow> (h0 + a, h1 + b, h2 + c, h3 + d, h4 + e))"

fun chunks16 :: "nat \<Rightarrow> 32 word list \<Rightarrow> 32 word list list" where
  "chunks16 0 ws = []"
| "chunks16 (Suc n) ws = take 16 ws # chunks16 n (drop 16 ws)"

definition sha1 :: "8 word list \<Rightarrow> sha1_state" where
  "sha1 msg =
     (let ws = be_words (sha1_pad msg)
      in foldl sha1_block (0x67452301, 0xEFCDAB89, 0x98BADCFE, 0x10325476, 0xC3D2E1F0)
           (chunks16 (length ws div 16) ws))"

definition hex_digit :: "nat \<Rightarrow> char" where
  "hex_digit n = ''0123456789abcdef'' ! n"

definition hex_word :: "32 word \<Rightarrow> string" where
  "hex_word w = map (\<lambda>i. hex_digit (unat (drop_bit (4 * (7 - i)) w AND 0xF))) [0..<8]"

definition hexdigest :: "sha1_state \<Rightarrow> string" where
  "hexdigest s = (case s of (h0, h1, h2, h3, h4) \<Rightarrow>
     hex_word h0 @ hex_word h1 @ hex_word h2 @ hex_word h3 @ hex_word h4)"

text \<open>\<open>str.encode('utf-8')\<close> on the strings built here (digits, \<open>|\<close>, \<open>-\<close>): one byte
  per character.\<close>

definition encode_utf8 :: "string \<Rightarrow> 8 word list" where
  "encode_utf8 s = map (\<lambda>c. of_char c) s"

definition sha1_hex :: "string \<Rightarrow> string" where
  "sha1_hex s = hexdigest (sha1 (encode_utf8 s))"

section \<open>\<open>fingerprint.py\<close>: the hash generator\<close>

definition DEFAULT_FAN_VALUE :: int where "DEFAULT_FAN_VALUE = 15"
definition MIN_HASH_TIME_DELTA :: int where "MIN_HASH_TIME_DELTA = 0"
definition MAX_HASH_TIME_DELTA :: int where "MAX_HASH_TIME_DELTA = 200"
definition FINGERPRINT_REDUCTION :: nat where "FINGERPRINT_REDUCTION = 20"

text \<open>A peak is the tuple \<open>(frequency index, time index)\<close>; \<open>IDX_FREQ_I = 0\<close> and
  \<open>IDX_TIME_J = 1\<close> select its components.\<close>

type_synonym peak = "int \<times> int"
type_synonym hash_record = "string \<times> int"

text \<open>Python's \<open>str\<close> of an integer: decimal digits, a leading \<open>-\<close> when negative.\<close>

definition digit_char :: "nat \<Rightarrow> char" where
  "digit_char n = ''0123456789'' ! n"

function str_nat :: "nat \<Rightarrow> string" where
  "str_nat n = (if n < 10 then [digit_char n] else str_nat (n div 10) @ [digit_char (n mod 10)])"
  by pat_completeness auto
termination
  by (relation "measure id") auto

declare str_nat.simps [simp del]

definition str_int :: "int \<Rightarrow> string" where
  "str_int i = (if i < 0 then CHR ''-'' # str_nat (nat (- i)) else str_nat (nat i))"

text \<open>Lines 172 and 175--178: the descriptor \<open>"%s|%s|%s"\<close> and the truncated digest.\<close>

definition maybe_hash :: "int \<Rightarrow> int \<Rightarrow> int \<Rightarrow> string" where
  "maybe_hash freq1 freq2 t_delta =
     str_int freq1 @ ''|'' @ str_int freq2 @ ''|'' @ str_int t_delta"

definition truncated_hash :: "string \<Rightarrow> string" where
  "truncated_hash s = take FINGERPRINT_REDUCTION (sha1_hex s)"

text \<open>The body of the two loops for one pair of indices that is in range (lines 166--178).\<close>

definition pair_records :: "peak list \<Rightarrow> nat \<Rightarrow> nat \<Rightarrow> hash_record list" where
  "pair_records peaks i j =
     (let freq1 = fst (peaks ! i);
          freq2 = fst (peaks ! (i + j));
          t1 = snd (peaks ! i);
          t2 = snd (peaks ! (i + j));
          t_delta = t2 - t1
      in if t_delta \<ge> MIN_HASH_TIME_DELTA \<and> t_delta \<le> MAX_HASH_TIME_DELTA
         then [(truncated_hash (maybe_hash freq1 freq2 t_delta), t1)]
         else [])"

text \<open>\<open>range(1, fan_value)\<close>: empty when \<open>fan_value \<le> 1\<close>.\<close>

definition fan_range :: "int \<Rightarrow> nat list" where
  "fan_range fan_value = map nat [1..fan_value - 1]"

primrec inner_loop :: "peak list \<Rightarrow> nat \<Rightarrow> nat list \<Rightarrow> hash_record list" where
  "inner_loop peaks i [] = []"
| "inner_loop peaks i (j # js) =
     (if i + j < length peaks then pair_records peaks i j else []) @ inner_loop peaks i js"

primrec outer_loop :: "peak list \<Rightarrow> int \<Rightarrow> nat list \<Rightarrow> hash_record list" where
  "outer_loop peaks fan_value [] = []"
| "outer_loop peaks fan_value (i # is) =
     inner_loop peaks i (fan_range fan_value) @ outer_loop peaks fan_value is"

text \<open>The generator, as the list of the records it yields, in order.  \<open>peaks.sort()\<close>
  orders the tuples lexicographically.\<close>

definition generate_hashes :: "peak list \<Rightarrow> int \<Rightarrow> hash_record list" where
  "generate_hashes peaks fan_value =
     (let peaks = sort peaks
      in outer_loop peaks fan_value [0..<length peaks])"

text \<open>
  \<open>fingerprint\<close> (lines 64--96) computes the spectrogram with \<open>mlab.specgram\<close>, takes
  \<open>10 * log10\<close>, finds the local maxima with \<open>get_2D_peaks\<close> (scipy filters on a
  floating-point matrix) and hands them to \<open>generate_hashes\<close>.  The numeric stages are
  library calls on floating-point arrays; they enter as the parameter \<open>local_maxima\<close>,
  the peaks found for a channel at a sample rate.
\<close>

type_synonym channel = "int list"

definition fingerprint ::
  "(channel \<Rightarrow> int \<Rightarrow> peak list) \<Rightarrow> channel \<Rightarrow> int \<Rightarrow> hash_record list" where
  "fingerprint local_maxima channel_samples Fs =
     generate_hashes (local_maxima channel_samples Fs) DEFAULT_FAN_VALUE"

section \<open>\<open>decoder.py\<close>\<close>

datatype py_error = AttributeError

text \<open>
  What \<open>read\<close> uses of a \<open>pydub.AudioSegment\<close>: its frame rate, its number of channels
  and \<open>np.fromstring(audiofile._data, np.int16)\<close>, the interleaved 16-bit samples.
\<close>

record audio_segment =
  frame_rate :: int
  n_channels :: nat
  samples16 :: "int list"

text \<open>
  What the libraries find in a file: \<open>AudioSegment.from_file\<close> gives a segment or raises
  \<open>audioop.error\<close> (\<open>None\<close>; 24-bit wav files); \<open>wavio.readwav\<close> gives the rate, the
  sample width and an array with one row per frame and one column per channel.
\<close>

record audio_file =
  base_name :: string
  file_bytes :: "8 word list"
  from_file :: "audio_segment option"
  readwav_rate :: int
  readwav_columns :: nat
  readwav_rows :: "int list list"

definition upper_char :: "char \<Rightarrow> char" where
  "upper_char c =
     (if c = CHR ''a'' then CHR ''A'' else if c = CHR ''b'' then CHR ''B''
      else if c = CHR ''c'' then CHR ''C'' else if c = CHR ''d'' then CHR ''D''
      else if c = CHR ''e'' then CHR ''E'' else if c = CHR ''f'' then CHR ''F'' else c)"

text \<open>\<open>unique_hash\<close>: SHA-1 of the file's bytes (fed block by block, which gives the digest
  of the whole), in uppercase hexadecimal.\<close>

definition unique_hash :: "8 word list \<Rightarrow> string" where
  "unique_hash bytes = map upper_char (hexdigest (sha1 bytes))"

text \<open>The slice \<open>xs[:n]\<close> of a sequence: a negative \<open>n\<close> counts from the end.\<close>

definition py_prefix :: "'a list \<Rightarrow> int \<Rightarrow> 'a list" where
  "py_prefix xs n = (if n \<ge> 0 then take (nat n) xs else take (length xs - nat (- n)) xs)"

text \<open>The slice \<open>data[chn::step]\<close> for \<open>0 \<le> chn\<close> and \<open>0 < step\<close>.\<close>

definition py_stride :: "'a list \<Rightarrow> nat \<Rightarrow> nat \<Rightarrow> 'a list" where
  "py_stride xs chn step = [xs ! k. k \<leftarrow> [0..<length xs], k \<ge> chn \<and> (k - chn) mod step = 0]"

text \<open>\<open>astype(np.int16)\<close> keeps the low 16 bits, read as a signed number.\<close>

definition astype_int16 :: "int \<Rightarrow> int" where
  "astype_int16 x = sint (word_of_int x :: 16 word)"

text \<open>
  Lines 90--100, the fallback when pydub raises: the rows of the array are cut at
  \<open>limit * 1000\<close>, the array is transposed and cast, and its rows are the channels.
\<close>

definition wavio_channels :: "audio_file \<Rightarrow> int option \<Rightarrow> channel list" where
  "wavio_channels f limit =
     (let audiofile = readwav_rows f;
          audiofile = (case limit of
                         None \<Rightarrow> audiofile
                       | Some l \<Rightarrow> if l \<noteq> 0 then py_prefix audiofile (l * 1000) else audiofile)
      in map (\<lambda>chn. map (\<lambda>row. astype_int16 (row ! chn)) audiofile) [0..<readwav_columns f])"

text \<open>
  Lines 77--88, the pydub path.  \<open>slice_ms seg ms\<close> stands for pydub's \<open>seg[:ms]\<close>, which
  is indexed in milliseconds.
\<close>

definition pydub_channels ::
  "(audio_segment \<Rightarrow> int \<Rightarrow> audio_segment) \<Rightarrow> audio_segment \<Rightarrow> int option \<Rightarrow> audio_segment \<times> channel list"
  where
  "pydub_channels slice_ms audiofile limit =
     (let audiofile = (case limit of
                         None \<Rightarrow> audiofile
                       | Some l \<Rightarrow> if l \<noteq> 0 then slice_ms audiofile (l * 1000) else audiofile);
          data = samples16 audiofile
      in (audiofile,
          map (\<lambda>chn. py_stride data chn (n_channels audiofile)) [0..<n_channels audiofile]))"

text \<open>
  \<open>read\<close>.  Line 102 returns \<open>audiofile.frame_rate\<close>: after the pydub path \<open>audiofile\<close> is
  the segment; after the fallback it is the numpy array, which has no such attribute, and
  the access raises \<open>AttributeError\<close>.
\<close>

definition read ::
  "(audio_segment \<Rightarrow> int \<Rightarrow> audio_segment) \<Rightarrow> audio_file \<Rightarrow> int option
     \<Rightarrow> py_error + (channel list \<times> int \<times> string)" where
  "read slice_ms f limit =
     (case from_file f of
        Some seg \<Rightarrow>
          (case pydub_channels slice_ms seg limit of
             (audiofile, channels) \<Rightarrow>
               Inr (channels, frame_rate audiofile, unique_hash (file_bytes f)))
      | None \<Rightarrow>
          (case wavio_channels f limit of channels \<Rightarrow> Inl AttributeError))"

section \<open>\<open>__init__.py\<close>\<close>

text \<open>Lines 33--35: \<open>config.get("fingerprint_limit", None)\<close>, with \<open>-1\<close> turned into
  \<open>None\<close>.\<close>

definition init_limit :: "int option \<Rightarrow> int option" where
  "init_limit fingerprint_limit =
     (if fingerprint_limit = Some (- 1) then None else fingerprint_limit)"

subsection \<open>The fingerprint worker\<close>

text \<open>The loop of lines 223--234: \<open>result |= set(hashes)\<close> for each channel in turn.\<close>

definition union_channels ::
  "(channel \<Rightarrow> int \<Rightarrow> peak list) \<Rightarrow> int \<Rightarrow> channel list \<Rightarrow> hash_record set" where
  "union_channels local_maxima Fs channels =
     foldl (\<lambda>result channel. result \<union> set (fingerprint local_maxima channel Fs)) {} channels"

text \<open>\<open>song_name or songname\<close>: the default is taken for \<open>None\<close> and for the empty
  string.\<close>

definition name_or :: "string option \<Rightarrow> string \<Rightarrow> string" where
  "name_or song_name songname =
     (case song_name of None \<Rightarrow> songname | Some s \<Rightarrow> if s = [] then songname else s)"

definition fingerprint_worker ::
  "(channel \<Rightarrow> int \<Rightarrow> peak list) \<Rightarrow> (audio_segment \<Rightarrow> int \<Rightarrow> audio_segment) \<Rightarrow>
     audio_file \<Rightarrow> int option \<Rightarrow> string option \<Rightarrow>
     py_error + (string \<times> hash_record set \<times> string)" where
  "fingerprint_worker local_maxima slice_ms filename limit song_name =
     (case read slice_ms filename limit of
        Inl e \<Rightarrow> Inl e
      | Inr (channels, Fs, file_hash) \<Rightarrow>
          Inr (name_or song_name (base_name filename),
               union_channels local_maxima Fs channels, file_hash))"

subsection \<open>\<open>align_matches\<close>\<close>

text \<open>The row \<open>get_song_by_id\<close> returns for a song, and the dictionary \<open>align_matches\<close>
  returns, with the keys of the source as field names.\<close>

record song_row =
  song_name :: string
  file_sha1 :: string

record 'f match_info =
  SONG_ID :: int
  SONG_NAME :: string
  CONFIDENCE :: nat
  OFFSET :: int
  OFFSET_SECS :: 'f
  FIELD_FILE_SHA1 :: string

text \<open>The variables of the loop of lines 155--170.\<close>

record align_state =
  diff_counter :: "int \<rightharpoonup> (int \<rightharpoonup> nat)"
  largest :: int
  largest_count :: nat
  song_id :: int

definition align_init :: align_state where
  "align_init = \<lparr>diff_counter = Map.empty, largest = 0, largest_count = 0, song_id = - 1\<rparr>"

text \<open>One iteration, for the tuple \<open>(sid, diff)\<close>: the entry is created when missing,
  incremented, and compared with \<open>largest_count\<close>.\<close>

definition align_step :: "align_state \<Rightarrow> int \<times> int \<Rightarrow> align_state" where
  "align_step st tup =
     (case tup of (sid, diff) \<Rightarrow>
        let row = (case diff_counter st diff of None \<Rightarrow> Map.empty | Some r \<Rightarrow> r);
            n = (case row sid of None \<Rightarrow> 0 | Some c \<Rightarrow> c) + 1;
            st = st\<lparr>diff_counter := (diff_counter st)(diff \<mapsto> row(sid \<mapsto> n))\<rparr>
        in if n > largest_count st
           then st\<lparr>largest := diff, largest_count := n, song_id := sid\<rparr>
           else st)"

definition align_loop :: "(int \<times> int) list \<Rightarrow> align_state" where
  "align_loop matches = foldl align_step align_init matches"

text \<open>
  \<open>align_matches\<close>.  \<open>get_song_by_id\<close> is the catalog's lookup (the database module is
  a collaborator).  \<open>nseconds d\<close> stands for the floating-point expression
  \<open>round(float(d) / DEFAULT_FS * DEFAULT_WINDOW_SIZE * DEFAULT_OVERLAP_RATIO, 5)\<close>.
\<close>

definition align_matches ::
  "(int \<Rightarrow> song_row option) \<Rightarrow> (int \<Rightarrow> 'f) \<Rightarrow> (int \<times> int) list \<Rightarrow> 'f match_info option"
  where
  "align_matches get_song_by_id nseconds matches =
     (let st = align_loop matches
      in case get_song_by_id (song_id st) of
           None \<Rightarrow> None
         | Some song \<Rightarrow>
             Some \<lparr>SONG_ID = song_id st, SONG_NAME = song_name song,
                   CONFIDENCE = largest_count st, OFFSET = largest st,
                   OFFSET_SECS = nseconds (largest st),
                   FIELD_FILE_SHA1 = file_sha1 song\<rparr>)"

text \<open>The entry \<open>diff_counter[diff][sid]\<close>, read as 0 while it does not exist.\<close>

definition tally :: "align_state \<Rightarrow> int \<times> int \<Rightarrow> nat" where
  "tally st tup =
     (case tup of (sid, diff) \<Rightarrow>
        (case diff_counter st diff of None \<Rightarrow> 0
         | Some r \<Rightarrow> (case r sid of None \<Rightarrow> 0 | Some c \<Rightarrow> c)))"

text \<open>Position \<open>k\<close> is the first at which the running count of the pair just read is
  \<open>c\<close>.\<close>

definition first_reach :: "(int \<times> int) list \<Rightarrow> nat \<Rightarrow> nat \<Rightarrow> bool" where
  "first_reach ms c k \<longleftrightarrow>
     k < length ms \<and> count_list (take (Suc k) ms) (ms ! k) = c \<and>
     (\<forall>k' < k. count_list (take (Suc k') ms) (ms ! k') < c)"

section \<open>Concrete inputs\<close>

text \<open>A catalog whose only row is stored under the id 7.\<close>

definition catalog_seven :: "int \<Rightarrow> song_row option" where
  "catalog_seven i =
     (if i = 7 then Some \<lparr>song_name = ''sweep'', file_sha1 = ''CD''\<rparr> else None)"

text \<open>pydub's \<open>seg[:ms]\<close> for a non-negative \<open>ms\<close>, on the interleaved samples: the
  frames of the first \<open>ms\<close> milliseconds, \<open>ms * frame_rate / 1000\<close> of them.\<close>

definition pydub_slice_ms :: "audio_segment \<Rightarrow> int \<Rightarrow> audio_segment" where
  "pydub_slice_ms seg ms =
     seg\<lparr>samples16 :=
           py_prefix (samples16 seg) (ms * frame_rate seg div 1000 * int (n_channels seg))\<rparr>"

text \<open>A stereo file that pydub decodes, with one frame.\<close>

definition stereo_example :: audio_file where
  "stereo_example =
     \<lparr>base_name = ''song'', file_bytes = [],
      from_file = Some \<lparr>frame_rate = 44100, n_channels = 2, samples16 = [1, 2]\<rparr>,
      readwav_rate = 44100, readwav_columns = 2, readwav_rows = [[1, 2]]\<rparr>"

text \<open>A mono 24-bit wav file of two seconds at 44100 Hz, on which pydub raises.\<close>

definition wav24_example :: audio_file where
  "wav24_example =
     \<lparr>base_name = ''tone'', file_bytes = [],
      from_file = None,
      readwav_rate = 44100, readwav_columns = 1, readwav_rows = replicate 88200 [70000]\<rparr>"

text \<open>Peaks for the two channels of the stereo file.\<close>

definition example_maxima :: "channel \<Rightarrow> int \<Rightarrow> peak list" where
  "example_maxima c Fs =
     (if c = [1] then [(100, 10), (200, 15)] else [(10, 0), (10, 5), (10, 250)])"

section \<open>Evaluating SHA-1\<close>

lemma replicate_numeral_Cons: "replicate (numeral k) x = x # replicate (pred_numeral k) x"
  by (simp add: numeral_eq_Suc)

lemma sha1_rounds_numeral:
  "sha1_rounds (numeral k) t s = sha1_rounds (pred_numeral k) (t + 1) (sha1_round s t)"
  by (simp add: numeral_eq_Suc)

lemma mask32_neutral: "(w :: 32 word) AND 0xFFFFFFFF = w"
proof -
  have "(0xFFFFFFFF :: 32 word) = - 1" by simp
  then show ?thesis by (simp only: and.right_neutral)
qed

lemma rotl32_masked: "rotl32 n w = (push_bit n w OR drop_bit (32 - n) w) AND 0xFFFFFFFF"
  by (simp only: rotl32_def mask32_neutral)

lemma sha1_block_eval:
  "snd (sha1_rounds 80 0 (w, h0, h1, h2, h3, h4)) = (a, b, c, d, e) \<Longrightarrow>
     sha1_block (h0, h1, h2, h3, h4) w = (h0 + a, h1 + b, h2 + c, h3 + d, h4 + e)"
  by simp

lemma sha1_one_block:
  "length ws = 16 \<Longrightarrow>
     foldl sha1_block h (chunks16 (length ws div 16) ws) = sha1_block h ws"
  by simp

lemma sha1_words_100_200_5: "be_words (sha1_pad (encode_utf8 ''100|200|5'')) =
  [0x3130307c, 0x3230307c, 0x35800000, 0, 0, 0, 0, 0, 0, 0, 0, 0, 0, 0, 0, 0x00000048]"
  by (simp add: sha1_pad_def encode_utf8_def Let_def replicate_numeral_Cons upt_conv_Cons)

lemma sha1_rounds_100_200_5:
  "snd (sha1_rounds 80 0
      ([0x3130307c, 0x3230307c, 0x35800000, 0, 0, 0, 0, 0, 0, 0, 0, 0, 0, 0, 0, 0x00000048],
       0x67452301, 0xEFCDAB89, 0x98BADCFE, 0x10325476, 0xC3D2E1F0)) =
   (0xb29b135f, 0xe951b7ad, 0xdf63cdce, 0x810ed9af, 0x9b85530b)"
  by (simp add: sha1_rounds_numeral Let_def rotl32_masked sha1_f_def sha1_k_def)

lemma sha1_100_200_5: "sha1 (encode_utf8 ''100|200|5'') =
   (0x19e03660, 0xd91f6336, 0x781eaacc, 0x91412e25, 0x5f5834fb)"
proof -
  let ?ws = "[0x3130307c, 0x3230307c, 0x35800000, 0, 0, 0, 0, 0, 0, 0, 0, 0, 0, 0, 0, 0x00000048] :: 32 word list"
  have l: "length ?ws = 16" by simp
  have "foldl sha1_block (0x67452301, 0xEFCDAB89, 0x98BADCFE, 0x10325476, 0xC3D2E1F0) (chunks16 (length ?ws div 16) ?ws) =
      sha1_block (0x67452301, 0xEFCDAB89, 0x98BADCFE, 0x10325476, 0xC3D2E1F0) ?ws"
    by (rule sha1_one_block [OF l])
  also have "\<dots> = (0x19e03660, 0xd91f6336, 0x781eaacc, 0x91412e25, 0x5f5834fb)"
    using sha1_block_eval [OF sha1_rounds_100_200_5] by simp
  finally show ?thesis by (simp only: sha1_def Let_def sha1_words_100_200_5)
qed

lemma sha1_hex_100_200_5: "sha1_hex ''100|200|5'' = ''19e03660d91f6336781eaacc91412e255f5834fb''"
  by (simp add: sha1_hex_def sha1_100_200_5 hexdigest_def hex_word_def hex_digit_def upt_conv_Cons)

lemma sha1_words_10_10_5: "be_words (sha1_pad (encode_utf8 ''10|10|5'')) =
  [0x31307c31, 0x307c3580, 0, 0, 0, 0, 0, 0, 0, 0, 0, 0, 0, 0, 0, 0x00000038]"
  by (simp add: sha1_pad_def encode_utf8_def Let_def replicate_numeral_Cons upt_conv_Cons)

lemma sha1_rounds_10_10_5:
  "snd (sha1_rounds 80 0
      ([0x31307c31, 0x307c3580, 0, 0, 0, 0, 0, 0, 0, 0, 0, 0, 0, 0, 0, 0x00000038],
       0x67452301, 0xEFCDAB89, 0x98BADCFE, 0x10325476, 0xC3D2E1F0)) =
   (0x0dea1d65, 0xc9846e7b, 0xc82f561b, 0x5a8ac6f1, 0x19107b01)"
  by (simp add: sha1_rounds_numeral Let_def rotl32_masked sha1_f_def sha1_k_def)

lemma sha1_10_10_5: "sha1 (encode_utf8 ''10|10|5'') =
   (0x752f4066, 0xb9521a04, 0x60ea3319, 0x6abd1b67, 0xdce35cf1)"
proof -
  let ?ws = "[0x31307c31, 0x307c3580, 0, 0, 0, 0, 0, 0, 0, 0, 0, 0, 0, 0, 0, 0x00000038] :: 32 word list"
  have l: "length ?ws = 16" by simp
  have "foldl sha1_block (0x67452301, 0xEFCDAB89, 0x98BADCFE, 0x10325476, 0xC3D2E1F0) (chunks16 (length ?ws div 16) ?ws) =
      sha1_block (0x67452301, 0xEFCDAB89, 0x98BADCFE, 0x10325476, 0xC3D2E1F0) ?ws"
    by (rule sha1_one_block [OF l])
  also have "\<dots> = (0x752f4066, 0xb9521a04, 0x60ea3319, 0x6abd1b67, 0xdce35cf1)"
    using sha1_block_eval [OF sha1_rounds_10_10_5] by simp
  finally show ?thesis by (simp only: sha1_def Let_def sha1_words_10_10_5)
qed

lemma sha1_hex_10_10_5: "sha1_hex ''10|10|5'' = ''752f4066b9521a0460ea33196abd1b67dce35cf1''"
  by (simp add: sha1_hex_def sha1_10_10_5 hexdigest_def hex_word_def hex_digit_def upt_conv_Cons)

section \<open>Properties of the hash generator\<close>

lemma fan_range_upt: "fan_range f = [1..<nat f]"
proof (cases "f \<le> 1")
  case True
  then show ?thesis by (simp add: fan_range_def)
next
  case False
  then have "1 \<le> f" by simp
  have "map nat [1..int k] = [1..<Suc k]" for k
  proof (induction k)
    case 0
    then show ?case by simp
  next
    case (Suc k)
    have "[1..int (Suc k)] = [1..int k] @ [int (Suc k)]"
      using upto_rec2 [of 1 "int (Suc k)"] by simp
    then show ?case using Suc by simp
  qed
  from this [of "nat (f - 1)"] have "map nat [1..int (nat (f - 1))] = [1..<Suc (nat (f - 1))]" .
  moreover from False have "int (nat (f - 1)) = f - 1" "Suc (nat (f - 1)) = nat f" by auto
  ultimately show ?thesis by (simp add: fan_range_def)
qed

lemma inner_loop_concat:
  "inner_loop ps i js =
     concat (map (\<lambda>j. if i + j < length ps then pair_records ps i j else []) js)"
  by (induction js) simp_all

lemma outer_loop_concat:
  "outer_loop ps f is = concat (map (\<lambda>i. inner_loop ps i (fan_range f)) is)"
  by (induction "is") simp_all

lemma fan_range_15: "fan_range 15 = [1, 2, 3, 4, 5, 6, 7, 8, 9, 10, 11, 12, 13, 14]"
  by (simp add: fan_range_def upto.simps)

lemma two_peaks_example: "generate_hashes [(100, 10), (200, 15)] 15 = [(truncated_hash ''100|200|5'', 10)]"
  by (simp add: generate_hashes_def Let_def fan_range_15 pair_records_def maybe_hash_def str_int_def str_nat.simps digit_char_def
       MIN_HASH_TIME_DELTA_def MAX_HASH_TIME_DELTA_def)

lemma three_peaks_example: "generate_hashes [(10, 0), (10, 5), (10, 250)] 15 = [(truncated_hash ''10|10|5'', 0)]"
  by (simp add: generate_hashes_def Let_def fan_range_15 pair_records_def maybe_hash_def str_int_def str_nat.simps digit_char_def
       MIN_HASH_TIME_DELTA_def MAX_HASH_TIME_DELTA_def)

lemma length_hex_word: "length (hex_word w) = 8"
  by (simp add: hex_word_def)

lemma length_sha1_hex: "length (sha1_hex s) = 40"
  by (simp add: sha1_hex_def hexdigest_def length_hex_word split: prod.splits)

lemma nibble_less: "unat ((w :: 32 word) AND 0xF) < 16"
proof -
  have "w AND 0xF \<le> 0xF" by (rule word_and_le1)
  then have "unat (w AND 0xF) \<le> unat (0xF :: 32 word)" by (simp add: word_le_nat_alt)
  then show ?thesis by simp
qed

lemma hex_digit_lowercase: "n < 16 \<Longrightarrow> hex_digit n \<in> set ''0123456789abcdef''"
proof -
  assume "n < 16"
  then have "n < length ''0123456789abcdef''" by simp
  then have "''0123456789abcdef'' ! n \<in> set ''0123456789abcdef''" by (rule nth_mem)
  then show ?thesis by (simp only: hex_digit_def)
qed

lemma set_hex_word: "set (hex_word w) \<subseteq> set ''0123456789abcdef''"
proof
  fix c assume "c \<in> set (hex_word w)"
  then obtain i where "c = hex_digit (unat (drop_bit (4 * (7 - i)) w AND 0xF))"
    unfolding hex_word_def by (auto simp only: set_map image_iff)
  then show "c \<in> set ''0123456789abcdef''"
    using hex_digit_lowercase [OF nibble_less] by (simp only:)
qed

lemma set_sha1_hex: "set (sha1_hex s) \<subseteq> set ''0123456789abcdef''"
proof -
  obtain h0 h1 h2 h3 h4 where h: "sha1 (encode_utf8 s) = (h0, h1, h2, h3, h4)"
    by (cases "sha1 (encode_utf8 s)")
  have "set (hex_word h0 @ hex_word h1 @ hex_word h2 @ hex_word h3 @ hex_word h4)
          \<subseteq> set ''0123456789abcdef''"
    using set_hex_word [of h0] set_hex_word [of h1] set_hex_word [of h2]
      set_hex_word [of h3] set_hex_word [of h4]
    by (simp only: set_append Un_subset_iff)
  then show ?thesis by (simp only: sha1_hex_def hexdigest_def h prod.case)
qed

lemma length_truncated_hash: "length (truncated_hash s) = 20"
  by (simp add: truncated_hash_def FINGERPRINT_REDUCTION_def length_sha1_hex)

lemma set_truncated_hash: "set (truncated_hash s) \<subseteq> set ''0123456789abcdef''"
  unfolding truncated_hash_def
  using set_sha1_hex [of s] set_take_subset [of FINGERPRINT_REDUCTION "sha1_hex s"]
  by (rule_tac subset_trans)

lemma generate_hashes_comprehension:
  "generate_hashes peaks fan_value =
     (let ps = sort peaks in
      [(truncated_hash (maybe_hash (fst (ps ! i)) (fst (ps ! (i + j)))
                          (snd (ps ! (i + j)) - snd (ps ! i))), snd (ps ! i)).
         i \<leftarrow> [0..<length ps], j \<leftarrow> [1..<nat fan_value], i + j < length ps,
         0 \<le> snd (ps ! (i + j)) - snd (ps ! i) \<and> snd (ps ! (i + j)) - snd (ps ! i) \<le> 200])"
  unfolding generate_hashes_def outer_loop_concat inner_loop_concat fan_range_upt
    pair_records_def MIN_HASH_TIME_DELTA_def MAX_HASH_TIME_DELTA_def Let_def
  by simp

lemma generate_hashes_member:
  assumes "r \<in> set (generate_hashes peaks fan_value)"
  shows "\<exists>a b. a \<in> set peaks \<and> b \<in> set peaks \<and>
           r = (truncated_hash (maybe_hash (fst a) (fst b) (snd b - snd a)), snd a)"
proof -
  let ?ps = "sort peaks"
  from assms obtain i j where ij: "i < length ?ps" "i + j < length ?ps"
    and r: "r = (truncated_hash (maybe_hash (fst (?ps ! i)) (fst (?ps ! (i + j)))
                          (snd (?ps ! (i + j)) - snd (?ps ! i))), snd (?ps ! i))"
    by (auto simp: generate_hashes_comprehension Let_def split: if_splits)
  have "?ps ! i \<in> set ?ps" using ij(1) by (rule nth_mem)
  moreover have "?ps ! (i + j) \<in> set ?ps" using ij(2) by (rule nth_mem)
  ultimately
  have "?ps ! i \<in> set peaks" "?ps ! (i + j) \<in> set peaks"
    by (simp_all only: set_sort)
  with r show ?thesis by blast
qed

section \<open>Properties of the aligner\<close>

lemma tally_init: "tally align_init x = 0"
  by (simp add: tally_def align_init_def split: prod.splits)

lemma tally_step:
  "tally (align_step st x) y = (if y = x then tally st x + 1 else tally st y)"
  by (cases x; cases y)
     (auto simp: tally_def align_step_def Let_def split: option.splits)

lemma largest_count_step:
  "largest_count (align_step st x) = max (largest_count st) (tally st x + 1)"
  by (cases x) (auto simp: tally_def align_step_def Let_def split: option.splits)

lemma winner_step_greater:
  "tally st x + 1 > largest_count st \<Longrightarrow>
     (song_id (align_step st x), largest (align_step st x)) = x"
  by (cases x) (auto simp: tally_def align_step_def Let_def split: option.splits)

lemma winner_step_not_greater:
  "\<not> tally st x + 1 > largest_count st \<Longrightarrow>
     song_id (align_step st x) = song_id st \<and> largest (align_step st x) = largest st"
  by (cases x) (auto simp: tally_def align_step_def Let_def split: option.splits)

lemma align_loop_snoc: "align_loop (ms @ [x]) = align_step (align_loop ms) x"
  by (simp add: align_loop_def)

lemma tally_align_loop: "tally (align_loop ms) x = count_list ms x"
proof (induction ms arbitrary: x rule: rev_induct)
  case Nil
  then show ?case by (simp add: align_loop_def tally_init)
next
  case (snoc m ms)
  then show ?case by (simp add: align_loop_snoc tally_step)
qed

lemma count_list_take_le: "count_list (take n xs) x \<le> count_list xs x"
proof -
  have "count_list xs x = count_list (take n xs) x + count_list (drop n xs) x"
    by (metis append_take_drop_id count_list_append)
  then show ?thesis by simp
qed

lemma largest_count_bound: "count_list ms x \<le> largest_count (align_loop ms)"
proof (induction ms arbitrary: x rule: rev_induct)
  case Nil
  then show ?case by simp
next
  case (snoc m ms)
  from snoc [of x] snoc [of m] show ?case
    by (auto simp: align_loop_snoc largest_count_step tally_align_loop)
qed

lemma first_reach_snoc_old:
  assumes "first_reach ms c k"
  shows "first_reach (ms @ [x]) c k"
  using assms by (auto simp: first_reach_def nth_append)

lemma first_reach_snoc_new:
  assumes "largest_count (align_loop ms) < count_list ms x + 1"
  shows "first_reach (ms @ [x]) (count_list ms x + 1) (length ms)"
proof -
  have "count_list (take (Suc k') (ms @ [x])) ((ms @ [x]) ! k') < count_list ms x + 1"
    if "k' < length ms" for k'
  proof -
    from that have "count_list (take (Suc k') (ms @ [x])) ((ms @ [x]) ! k')
        = count_list (take (Suc k') ms) (ms ! k')"
      by (simp add: nth_append)
    also have "\<dots> \<le> count_list ms (ms ! k')" by (rule count_list_take_le)
    also have "\<dots> \<le> largest_count (align_loop ms)" by (rule largest_count_bound)
    finally show ?thesis using assms by simp
  qed
  then show ?thesis by (simp add: first_reach_def)
qed

lemma align_loop_winner:
  "ms \<noteq> [] \<Longrightarrow>
     \<exists>k. first_reach ms (largest_count (align_loop ms)) k \<and>
         ms ! k = (song_id (align_loop ms), largest (align_loop ms))"
proof (induction ms rule: rev_induct)
  case Nil
  then show ?case by simp
next
  case (snoc x ms)
  let ?st = "align_loop ms"
  show ?case
  proof (cases "tally ?st x + 1 > largest_count ?st")
    case True
    then have lc: "largest_count (align_loop (ms @ [x])) = count_list ms x + 1"
      by (simp add: align_loop_snoc largest_count_step tally_align_loop)
    from True have w: "(song_id (align_loop (ms @ [x])), largest (align_loop (ms @ [x]))) = x"
      by (simp add: align_loop_snoc winner_step_greater)
    from True have "first_reach (ms @ [x]) (count_list ms x + 1) (length ms)"
      by (intro first_reach_snoc_new) (simp add: tally_align_loop)
    with lc w show ?thesis by (intro exI [of _ "length ms"]) simp
  next
    case False
    then have lc: "largest_count (align_loop (ms @ [x])) = largest_count ?st"
      by (simp add: align_loop_snoc largest_count_step)
    from False have w: "song_id (align_loop (ms @ [x])) = song_id ?st"
      "largest (align_loop (ms @ [x])) = largest ?st"
      by (simp_all add: align_loop_snoc winner_step_not_greater)
    from False have "ms \<noteq> []"
      by (auto simp: align_loop_def align_init_def tally_def)
    with snoc.IH obtain k where k: "first_reach ms (largest_count ?st) k"
      "ms ! k = (song_id ?st, largest ?st)" by blast
    from k(1) have "k < length ms" by (simp add: first_reach_def)
    with k lc w first_reach_snoc_old [OF k(1), of x] show ?thesis
      by (intro exI [of _ k]) (simp add: nth_append)
  qed
qed

lemma align_loop_Nil: "align_loop [] = align_init"
  by (simp add: align_loop_def)

section \<open>The claims\<close>

lemma lex_sorted_sort:
  "sorted_wrt (\<lambda>p q. fst p < fst q \<or> fst p = fst q \<and> snd p \<le> snd q) (sort (xs :: peak list))"
proof -
  have "sorted_wrt (\<le>) (sort xs)" by simp
  then show ?thesis
    by (rule sorted_wrt_mono_rel [rotated]) (auto simp: less_eq_prod_def)
qed

text \<open>
  C1.  Every record that \<open>generate_hashes\<close> yields is a pair \<open>(h, t1)\<close> for an anchor
  peak \<open>a\<close> and a target peak \<open>b\<close> of the input: \<open>h\<close> is the first 20 characters of
  the hexadecimal SHA-1 digest of \<open>"freq1|freq2|dt"\<close>, it has exactly 20 characters, all
  of them lowercase hexadecimal digits, and \<open>t1\<close> is the anchor's time.  The two peaks
  \<open>(100, 10)\<close> and \<open>(200, 15)\<close> with \<open>fan_value = 15\<close> give exactly one record, for
  \<open>"100|200|5"\<close> at time 10.
\<close>

theorem generate_hashes_record_format:
  "(\<forall>r \<in> set (generate_hashes peaks fan_value).
      \<exists>a b. a \<in> set peaks \<and> b \<in> set peaks \<and>
        r = (take 20 (sha1_hex (str_int (fst a) @ ''|'' @ str_int (fst b) @ ''|'' @
                                 str_int (snd b - snd a))), snd a) \<and>
        length (fst r) = 20 \<and> set (fst r) \<subseteq> set ''0123456789abcdef'')
   \<and> generate_hashes [(100, 10), (200, 15)] 15 = [(take 20 (sha1_hex ''100|200|5''), 10)]
   \<and> take 20 (sha1_hex ''100|200|5'') = ''19e03660d91f6336781e''"
proof (intro conjI ballI)
  fix r assume "r \<in> set (generate_hashes peaks fan_value)"
  then obtain a b where ab: "a \<in> set peaks" "b \<in> set peaks"
    and r: "r = (truncated_hash (maybe_hash (fst a) (fst b) (snd b - snd a)), snd a)"
    using generate_hashes_member by blast
  from r have "length (fst r) = 20" "set (fst r) \<subseteq> set ''0123456789abcdef''"
    using set_truncated_hash [of "maybe_hash (fst a) (fst b) (snd b - snd a)"]
    by (simp_all only: fst_conv length_truncated_hash)
  moreover from r have "r = (take 20 (sha1_hex (str_int (fst a) @ ''|'' @ str_int (fst b) @ ''|'' @
                                 str_int (snd b - snd a))), snd a)"
    by (simp only: truncated_hash_def maybe_hash_def FINGERPRINT_REDUCTION_def)
  ultimately show "\<exists>a b. a \<in> set peaks \<and> b \<in> set peaks \<and>
        r = (take 20 (sha1_hex (str_int (fst a) @ ''|'' @ str_int (fst b) @ ''|'' @
                                 str_int (snd b - snd a))), snd a) \<and>
        length (fst r) = 20 \<and> set (fst r) \<subseteq> set ''0123456789abcdef''"
    using ab by blast
next
  show "generate_hashes [(100, 10), (200, 15)] 15 = [(take 20 (sha1_hex ''100|200|5''), 10)]"
    using two_peaks_example by (simp only: truncated_hash_def FINGERPRINT_REDUCTION_def)
next
  show "take 20 (sha1_hex ''100|200|5'') = ''19e03660d91f6336781e''"
    by (simp add: sha1_hex_100_200_5)
qed

theorem generate_hashes_record_format_witness:
  "length (fst (hd (generate_hashes [(100, 10), (200, 15)] 15))) = 20 \<and>
   snd (hd (generate_hashes [(100, 10), (200, 15)] 15)) = 10"
proof -
  let ?g = "generate_hashes [(100, 10), (200, 15)] 15"
  note fmt = generate_hashes_record_format [of "[(100, 10), (200, 15)]" 15]
  from fmt have g: "?g = [(take 20 (sha1_hex ''100|200|5''), 10)]" by blast
  then have "hd ?g \<in> set ?g" by simp
  with fmt have "length (fst (hd ?g)) = 20" by blast
  moreover from g have "snd (hd ?g) = 10" by simp
  ultimately show ?thesis by simp
qed

text \<open>
  C2.  The records are exactly those of the index pairs \<open>(i, i + j)\<close> of the sorted peak
  list with \<open>1 \<le> j < fan_value\<close>, \<open>i + j\<close> in range and a time delta in \<open>[0, 200]\<close>,
  in the order of the two loops: a pair in the target zone yields a record if and only
  if its delta lies in the window.  For the peaks \<open>(10, 0)\<close>, \<open>(10, 5)\<close>, \<open>(10, 250)\<close>
  only the pair with delta 5 yields a record.
\<close>

theorem generate_hashes_time_delta_window:
  "generate_hashes peaks fan_value =
     (let ps = sort peaks in
      [(truncated_hash (maybe_hash (fst (ps ! i)) (fst (ps ! (i + j)))
                          (snd (ps ! (i + j)) - snd (ps ! i))), snd (ps ! i)).
         i \<leftarrow> [0..<length ps], j \<leftarrow> [1..<nat fan_value], i + j < length ps,
         0 \<le> snd (ps ! (i + j)) - snd (ps ! i) \<and> snd (ps ! (i + j)) - snd (ps ! i) \<le> 200])
   \<and> generate_hashes [(10, 0), (10, 5), (10, 250)] 15 = [(truncated_hash ''10|10|5'', 0)]
   \<and> truncated_hash ''10|10|5'' = ''752f4066b9521a0460ea''"
proof (intro conjI)
  show "truncated_hash ''10|10|5'' = ''752f4066b9521a0460ea''"
    by (simp add: truncated_hash_def FINGERPRINT_REDUCTION_def sha1_hex_10_10_5)
qed (rule generate_hashes_comprehension, rule three_peaks_example)

text \<open>
  C3.  \<open>generate_hashes\<close> runs its loops on the sorted peak list, which ascends
  lexicographically by (frequency, time); so two inputs that are permutations of one
  another yield the same sequence of records.
\<close>

theorem generate_hashes_permutation_invariant:
  "mset xs = mset ys \<Longrightarrow>
     generate_hashes xs fan_value = generate_hashes ys fan_value \<and>
     generate_hashes xs fan_value = outer_loop (sort xs) fan_value [0..<length xs] \<and>
     sorted_wrt (\<lambda>p q. fst p < fst q \<or> fst p = fst q \<and> snd p \<le> snd q) (sort xs)"
proof (intro conjI)
  assume "mset xs = mset ys"
  then have "sort xs = sort ys"
    by (metis properties_for_sort sorted_sort mset_sort)
  then show "generate_hashes xs fan_value = generate_hashes ys fan_value"
    by (simp add: generate_hashes_def)
next
  show "generate_hashes xs fan_value = outer_loop (sort xs) fan_value [0..<length xs]"
    by (simp add: generate_hashes_def)
next
  show "sorted_wrt (\<lambda>p q. fst p < fst q \<or> fst p = fst q \<and> snd p \<le> snd q) (sort xs)"
    by (rule lex_sorted_sort)
qed

theorem generate_hashes_permutation_invariant_witness:
  "mset [(10, 250), (10, 5), (10, 0 :: int)] = mset [(10 :: int, 0), (10, 5), (10, 250)] \<and>
   generate_hashes [(10, 250), (10, 5), (10, 0)] 15 =
     generate_hashes [(10, 0), (10, 5), (10, 250)] 15"
proof -
  have h: "mset [(10, 250), (10, 5), (10, 0 :: int)] = mset [(10 :: int, 0), (10, 5), (10, 250)]"
    by simp
  from generate_hashes_permutation_invariant [OF h, of 15] h show ?thesis by blast
qed

text \<open>
  C10.  With \<open>fan_value \<le> 1\<close> the inner range is empty and \<open>generate_hashes\<close> yields
  nothing, whatever the peaks.
\<close>

theorem generate_hashes_fan_at_most_one:
  "fan_value \<le> 1 \<Longrightarrow> generate_hashes peaks fan_value = []"
  by (simp add: generate_hashes_def outer_loop_concat fan_range_def)

theorem generate_hashes_fan_at_most_one_witness:
  "(1 :: int) \<le> 1 \<and> generate_hashes [(100, 10), (200, 15)] 1 = []"
proof -
  have h: "(1 :: int) \<le> 1" by simp
  from generate_hashes_fan_at_most_one [OF h, of "[(100, 10), (200, 15)]"] h
  show ?thesis by blast
qed

text \<open>
  C4.  After any sequence of pairs the tally of a pair is the number of its occurrences
  and \<open>largest_count\<close> bounds every tally.  For a non-empty sequence the winner
  \<open>(song_id, largest)\<close> is the pair read at the first position where a running tally
  equals the final \<open>largest_count\<close>.  Reading one more pair replaces the winner exactly
  when its incremented tally is strictly greater than \<open>largest_count\<close>; a tally that
  only equals it leaves the winner in place.
\<close>

theorem align_matches_running_argmax:
  "(tally (align_loop ms) x = count_list ms x) \<and>
   (count_list ms x \<le> largest_count (align_loop ms)) \<and>
   (ms \<noteq> [] \<longrightarrow>
      (\<exists>k < length ms.
         ms ! k = (song_id (align_loop ms), largest (align_loop ms)) \<and>
         count_list (take (Suc k) ms) (ms ! k) = largest_count (align_loop ms) \<and>
         (\<forall>k' < k. count_list (take (Suc k') ms) (ms ! k') < largest_count (align_loop ms)))) \<and>
   (count_list ms x + 1 > largest_count (align_loop ms) \<longrightarrow>
      (song_id (align_loop (ms @ [x])), largest (align_loop (ms @ [x]))) = x \<and>
      largest_count (align_loop (ms @ [x])) = count_list ms x + 1) \<and>
   (count_list ms x + 1 \<le> largest_count (align_loop ms) \<longrightarrow>
      song_id (align_loop (ms @ [x])) = song_id (align_loop ms) \<and>
      largest (align_loop (ms @ [x])) = largest (align_loop ms) \<and>
      largest_count (align_loop (ms @ [x])) = largest_count (align_loop ms))"
proof (intro conjI impI)
  show "tally (align_loop ms) x = count_list ms x" by (rule tally_align_loop)
  show "count_list ms x \<le> largest_count (align_loop ms)" by (rule largest_count_bound)
next
  assume "ms \<noteq> []"
  then obtain k where "first_reach ms (largest_count (align_loop ms)) k"
    "ms ! k = (song_id (align_loop ms), largest (align_loop ms))"
    using align_loop_winner by blast
  then show "\<exists>k < length ms.
         ms ! k = (song_id (align_loop ms), largest (align_loop ms)) \<and>
         count_list (take (Suc k) ms) (ms ! k) = largest_count (align_loop ms) \<and>
         (\<forall>k' < k. count_list (take (Suc k') ms) (ms ! k') < largest_count (align_loop ms))"
    unfolding first_reach_def by blast
next
  assume g: "count_list ms x + 1 > largest_count (align_loop ms)"
  then have t: "tally (align_loop ms) x + 1 > largest_count (align_loop ms)"
    by (simp add: tally_align_loop)
  then show "(song_id (align_loop (ms @ [x])), largest (align_loop (ms @ [x]))) = x"
    by (simp only: align_loop_snoc winner_step_greater)
  from g show "largest_count (align_loop (ms @ [x])) = count_list ms x + 1"
    by (simp add: align_loop_snoc largest_count_step tally_align_loop)
next
  assume le: "count_list ms x + 1 \<le> largest_count (align_loop ms)"
  then have t: "\<not> tally (align_loop ms) x + 1 > largest_count (align_loop ms)"
    by (simp add: tally_align_loop)
  from winner_step_not_greater [OF t]
  show "song_id (align_loop (ms @ [x])) = song_id (align_loop ms)"
    "largest (align_loop (ms @ [x])) = largest (align_loop ms)"
    by (simp_all only: align_loop_snoc)
  from le show "largest_count (align_loop (ms @ [x])) = largest_count (align_loop ms)"
    by (simp add: align_loop_snoc largest_count_step tally_align_loop)
qed

lemma align_loop_tie_example:
  "song_id (align_loop [(1, 0), (2, 0), (2, 0)]) = 2 \<and>
   largest (align_loop [(1, 0), (2, 0), (2, 0)]) = 0 \<and>
   largest_count (align_loop [(1, 0), (2, 0), (2, 0)]) = 2"
  by (simp add: align_loop_def align_step_def align_init_def)

theorem align_matches_running_argmax_witness:
  "[(1, 0), (2, 0), (2, 0)] \<noteq> ([] :: (int \<times> int) list) \<and>
   count_list [(1, 0), (2, 0), (2, 0)] (1 :: int, 0 :: int) + 1
     \<le> largest_count (align_loop [(1, 0), (2, 0), (2, 0)]) \<and>
   song_id (align_loop ([(1, 0), (2, 0), (2, 0)] @ [(1, 0)])) = 2 \<and>
   largest_count (align_loop ([(1, 0), (2, 0), (2, 0)] @ [(1, 0)])) = 2"
proof -
  let ?ms = "[(1, 0), (2, 0), (2, 0)] :: (int \<times> int) list"
  have st: "song_id (align_loop ?ms) = 2" "largest_count (align_loop ?ms) = 2"
    by (simp_all add: align_loop_tie_example)
  have h: "count_list ?ms (1, 0) + 1 \<le> largest_count (align_loop ?ms)"
    by (simp add: st)
  from align_matches_running_argmax [of ?ms "(1, 0)"] h
  have "song_id (align_loop (?ms @ [(1, 0)])) = song_id (align_loop ?ms)"
    "largest_count (align_loop (?ms @ [(1, 0)])) = largest_count (align_loop ?ms)"
    by blast+
  with st h show ?thesis by simp
qed

section \<open>Properties of the decoder and the worker\<close>

lemma init_limit_full_track: "init_limit None = None \<and> init_limit (Some (- 1)) = None"
  by (simp add: init_limit_def)

lemma init_limit_positive: "0 < l \<Longrightarrow> init_limit (Some l) = Some l"
  by (simp add: init_limit_def)

lemma read_pydub_no_limit:
  "from_file f = Some seg \<Longrightarrow>
     read slice_ms f None =
       Inr (map (\<lambda>chn. py_stride (samples16 seg) chn (n_channels seg)) [0..<n_channels seg],
            frame_rate seg, unique_hash (file_bytes f))"
  by (simp add: read_def pydub_channels_def)

lemma read_pydub_limit:
  "from_file f = Some seg \<Longrightarrow> l \<noteq> 0 \<Longrightarrow>
     read slice_ms f (Some l) =
       Inr (map (\<lambda>chn. py_stride (samples16 (slice_ms seg (l * 1000))) chn
                         (n_channels (slice_ms seg (l * 1000))))
              [0..<n_channels (slice_ms seg (l * 1000))],
            frame_rate (slice_ms seg (l * 1000)), unique_hash (file_bytes f))"
  by (simp add: read_def pydub_channels_def Let_def)

lemma pydub_slice_seconds:
  "samples16 (pydub_slice_ms seg (l * 1000)) =
     py_prefix (samples16 seg) (l * frame_rate seg * int (n_channels seg))"
  by (simp add: pydub_slice_ms_def mult.assoc mult.left_commute)

lemma read_pydub_limit_seconds:
  assumes "from_file f = Some seg" and "0 < l" and "0 \<le> frame_rate seg"
  shows "read pydub_slice_ms f (Some l) =
       Inr (map (\<lambda>chn. py_stride (take (nat (l * frame_rate seg) * n_channels seg)
                                       (samples16 seg)) chn (n_channels seg))
              [0..<n_channels seg],
            frame_rate seg, unique_hash (file_bytes f))"
proof -
  from assms(2,3) have "0 \<le> l * frame_rate seg * int (n_channels seg)" by simp
  moreover from assms(2,3)
  have "nat (l * frame_rate seg * int (n_channels seg)) = nat (l * frame_rate seg) * n_channels seg"
    by (simp add: nat_mult_distrib)
  ultimately have "samples16 (pydub_slice_ms seg (l * 1000)) =
      take (nat (l * frame_rate seg) * n_channels seg) (samples16 seg)"
    by (simp add: pydub_slice_seconds py_prefix_def)
  moreover have "n_channels (pydub_slice_ms seg (l * 1000)) = n_channels seg"
    "frame_rate (pydub_slice_ms seg (l * 1000)) = frame_rate seg"
    by (simp_all add: pydub_slice_ms_def)
  ultimately show ?thesis
    using read_pydub_limit [OF assms(1), of l pydub_slice_ms] assms(2) by simp
qed

lemma read_fallback: "from_file f = None \<Longrightarrow> read slice_ms f limit = Inl AttributeError"
  by (simp add: read_def)

lemma wavio_channels_example: "wavio_channels wav24_example (Some 1) = [replicate 1000 4464]"
  by (simp add: wavio_channels_def wav24_example_def py_prefix_def astype_int16_def)

lemma upt_0_2: "[0..<2] = [0, Suc 0]"
  by (simp add: numeral_2_eq_2)

lemma read_stereo_example:
  "read pydub_slice_ms stereo_example None = Inr ([[1], [2]], 44100, unique_hash [])"
  by (simp add: read_def pydub_channels_def stereo_example_def py_stride_def Let_def
      upt_0_2)

lemma union_channels_foldl:
  "foldl (\<lambda>result channel. result \<union> set (fingerprint local_maxima channel Fs)) acc channels =
     acc \<union> (\<Union>c \<in> set channels. set (fingerprint local_maxima c Fs))"
  by (induction channels arbitrary: acc) auto

lemma union_channels_Union:
  "union_channels local_maxima Fs channels =
     (\<Union>c \<in> set channels. set (fingerprint local_maxima c Fs))"
  by (simp add: union_channels_def union_channels_foldl)

lemma align_loop_winner_member:
  "ms \<noteq> [] \<Longrightarrow> (song_id (align_loop ms), largest (align_loop ms)) \<in> set ms"
proof -
  assume "ms \<noteq> []"
  then obtain k where "first_reach ms (largest_count (align_loop ms)) k"
    "ms ! k = (song_id (align_loop ms), largest (align_loop ms))"
    using align_loop_winner by blast
  then have "k < length ms" "ms ! k = (song_id (align_loop ms), largest (align_loop ms))"
    by (simp_all add: first_reach_def)
  then show ?thesis by (metis nth_mem)
qed

section \<open>The claims on the aligner's result, the worker and the decoder\<close>

text \<open>
  C5.  The catalog issues the ids of its songs and \<open>-1\<close>, the value \<open>song_id\<close> starts
  with, is none of them: \<open>get_song_by_id\<close> has no row under \<open>-1\<close>.  Then
  \<open>align_matches\<close> returns null exactly when no match can be identified, that is when
  there are zero input pairs or the winning pair's song has no row in the catalog; with
  zero input pairs it returns null, and whenever the winning song has a row it returns the
  descriptor with song id, song name, confidence, offset, offset in seconds and file
  hash, the winner being one of the input pairs.
\<close>

theorem align_matches_null_iff_no_match:
  assumes "get_song_by_id (- 1) = None"
  shows
  "(align_matches get_song_by_id nseconds ms = None \<longleftrightarrow>
      ms = [] \<or> get_song_by_id (song_id (align_loop ms)) = None) \<and>
   align_matches get_song_by_id nseconds [] = None \<and>
   (ms \<noteq> [] \<longrightarrow> (song_id (align_loop ms), largest (align_loop ms)) \<in> set ms) \<and>
   (\<forall>song. get_song_by_id (song_id (align_loop ms)) = Some song \<longrightarrow>
      ms \<noteq> [] \<and>
      align_matches get_song_by_id nseconds ms =
        Some \<lparr>SONG_ID = song_id (align_loop ms), SONG_NAME = song_name song,
              CONFIDENCE = largest_count (align_loop ms), OFFSET = largest (align_loop ms),
              OFFSET_SECS = nseconds (largest (align_loop ms)),
              FIELD_FILE_SHA1 = file_sha1 song\<rparr>)"
proof -
  have s: "song_id (align_loop []) = - 1"
    by (simp add: align_loop_def align_init_def)
  have n: "align_matches get_song_by_id nseconds [] = None"
    using assms s by (simp add: align_matches_def Let_def)
  have e: "get_song_by_id (song_id (align_loop ms)) = None" if "ms = []"
    using that assms s by simp
  have i: "align_matches get_song_by_id nseconds ms = None \<longleftrightarrow>
      get_song_by_id (song_id (align_loop ms)) = None"
    by (simp add: align_matches_def Let_def split: option.splits)
  have c1: "align_matches get_song_by_id nseconds ms = None \<longleftrightarrow>
      ms = [] \<or> get_song_by_id (song_id (align_loop ms)) = None"
    using i e by auto
  have c3: "ms \<noteq> [] \<longrightarrow> (song_id (align_loop ms), largest (align_loop ms)) \<in> set ms"
    using align_loop_winner_member by blast
  have c4: "ms \<noteq> [] \<and>
      align_matches get_song_by_id nseconds ms =
        Some \<lparr>SONG_ID = song_id (align_loop ms), SONG_NAME = song_name song,
              CONFIDENCE = largest_count (align_loop ms), OFFSET = largest (align_loop ms),
              OFFSET_SECS = nseconds (largest (align_loop ms)),
              FIELD_FILE_SHA1 = file_sha1 song\<rparr>"
    if r: "get_song_by_id (song_id (align_loop ms)) = Some song" for song
  proof
    from r e show "ms \<noteq> []" by auto
    from r show "align_matches get_song_by_id nseconds ms =
        Some \<lparr>SONG_ID = song_id (align_loop ms), SONG_NAME = song_name song,
              CONFIDENCE = largest_count (align_loop ms), OFFSET = largest (align_loop ms),
              OFFSET_SECS = nseconds (largest (align_loop ms)),
              FIELD_FILE_SHA1 = file_sha1 song\<rparr>"
      by (simp add: align_matches_def Let_def)
  qed
  from c1 n c3 c4 show ?thesis by blast
qed

theorem align_matches_null_iff_no_match_witness:
  "catalog_seven (- 1) = None \<and>
   align_matches catalog_seven (\<lambda>d. ()) [] = None \<and>
   align_matches catalog_seven (\<lambda>d. ()) [(9, 1)] = None \<and>
   catalog_seven (song_id (align_loop [(7, 3), (7, 3)])) =
     Some \<lparr>song_name = ''sweep'', file_sha1 = ''CD''\<rparr> \<and>
   align_matches catalog_seven (\<lambda>d. ()) [(7, 3), (7, 3)] =
     Some \<lparr>SONG_ID = 7, SONG_NAME = ''sweep'', CONFIDENCE = 2, OFFSET = 3,
           OFFSET_SECS = (), FIELD_FILE_SHA1 = ''CD''\<rparr>"
proof -
  let ?ms = "[(7, 3), (7, 3)] :: (int \<times> int) list"
  let ?ns = "[(9, 1)] :: (int \<times> int) list"
  have st: "song_id (align_loop ?ms) = 7" "largest (align_loop ?ms) = 3"
    "largest_count (align_loop ?ms) = 2"
    by (simp_all add: align_loop_def align_step_def align_init_def)
  have sn: "song_id (align_loop ?ns) = 9"
    by (simp add: align_loop_def align_step_def align_init_def)
  have h1: "catalog_seven (- 1) = None" by (simp add: catalog_seven_def)
  have h2: "catalog_seven (song_id (align_loop ?ms)) =
      Some \<lparr>song_name = ''sweep'', file_sha1 = ''CD''\<rparr>"
    by (simp add: st catalog_seven_def)
  have h3: "catalog_seven (song_id (align_loop ?ns)) = None"
    by (simp add: sn catalog_seven_def)
  note a = align_matches_null_iff_no_match [of catalog_seven "\<lambda>d. ()" ?ms, OF h1]
  note b = align_matches_null_iff_no_match [of catalog_seven "\<lambda>d. ()" ?ns, OF h1]
  from a have c0: "align_matches catalog_seven (\<lambda>d. ()) [] = None" by blast
  from b h3 have c1: "align_matches catalog_seven (\<lambda>d. ()) ?ns = None" by blast
  from a h2 have "align_matches catalog_seven (\<lambda>d. ()) ?ms =
      Some \<lparr>SONG_ID = song_id (align_loop ?ms), SONG_NAME = ''sweep'',
            CONFIDENCE = largest_count (align_loop ?ms), OFFSET = largest (align_loop ?ms),
            OFFSET_SECS = (), FIELD_FILE_SHA1 = ''CD''\<rparr>"
    by simp
  with c0 c1 h1 h2 st show ?thesis by simp
qed

text \<open>
  C8.  The worker's hash collection is the union, over the channels that \<open>read\<close> returns,
  of the sets of records of each channel; as a set it holds a record once however many
  channels yield it, and it depends only on which channels there are, not on their
  order.
\<close>

theorem fingerprint_worker_union:
  "union_channels local_maxima Fs channels =
     (\<Union>c \<in> set channels. set (fingerprint local_maxima c Fs)) \<and>
   (set channels = set channels' \<longrightarrow>
      union_channels local_maxima Fs channels = union_channels local_maxima Fs channels') \<and>
   (read slice_ms filename limit = Inr (channels, Fs, file_hash) \<longrightarrow>
      fingerprint_worker local_maxima slice_ms filename limit name =
        Inr (name_or name (base_name filename),
             (\<Union>c \<in> set channels. set (fingerprint local_maxima c Fs)), file_hash))"
  by (simp add: union_channels_Union fingerprint_worker_def)

theorem fingerprint_worker_union_witness:
  "set [[1], [2 :: int]] = set [[2], [1]] \<and>
   union_channels example_maxima 44100 [[1], [2]] =
     union_channels example_maxima 44100 [[2], [1]] \<and>
   read pydub_slice_ms stereo_example None = Inr ([[1], [2]], 44100, unique_hash []) \<and>
   fingerprint_worker example_maxima pydub_slice_ms stereo_example None None =
     Inr (''song'', {(truncated_hash ''100|200|5'', 10), (truncated_hash ''10|10|5'', 0)},
          unique_hash [])"
proof -
  have h1: "set [[1], [2 :: int]] = set [[2], [1]]" by auto
  note u = fingerprint_worker_union [of example_maxima 44100 "[[1], [2]]" "[[2], [1]]"
      pydub_slice_ms stereo_example None "unique_hash []" None]
  from u h1 have c1: "union_channels example_maxima 44100 [[1], [2]] =
     union_channels example_maxima 44100 [[2], [1]]" by blast
  have un: "(\<Union>c \<in> set [[1], [2]]. set (fingerprint example_maxima c 44100)) =
      {(truncated_hash ''100|200|5'', 10), (truncated_hash ''10|10|5'', 0)}"
    by (auto simp: fingerprint_def example_maxima_def DEFAULT_FAN_VALUE_def
        two_peaks_example three_peaks_example)
  have nm: "name_or None (base_name stereo_example) = ''song''"
    by (simp add: name_or_def stereo_example_def)
  from u read_stereo_example
  have "fingerprint_worker example_maxima pydub_slice_ms stereo_example None None =
      Inr (name_or None (base_name stereo_example),
           (\<Union>c \<in> set [[1], [2]]. set (fingerprint example_maxima c 44100)), unique_hash [])"
    by blast
  then have c2: "fingerprint_worker example_maxima pydub_slice_ms stereo_example None None =
     Inr (''song'', {(truncated_hash ''100|200|5'', 10), (truncated_hash ''10|10|5'', 0)},
          unique_hash [])"
    by (simp only: un nm)
  from h1 c1 read_stereo_example c2 show ?thesis by blast
qed

text \<open>
  C9, on the fallback path.  For the 24-bit wav file of two seconds at 44100 Hz, on which
  pydub raises, \<open>read\<close> raises \<open>AttributeError\<close> whatever the limit, so nothing is
  ingested; and with a limit of one second the channel built before the return holds
  1000 frames, not the 44100 of the first second.
\<close>

theorem read_fallback_loses_track:
  "from_file wav24_example = None \<and>
   read slice_ms wav24_example None = Inl AttributeError \<and>
   read slice_ms wav24_example (Some 1) = Inl AttributeError \<and>
   wavio_channels wav24_example (Some 1) = [replicate 1000 4464] \<and>
   readwav_rate wav24_example = 44100"
proof -
  have n: "from_file wav24_example = None" by (simp add: wav24_example_def)
  have r: "readwav_rate wav24_example = 44100" by (simp add: wav24_example_def)
  from n r read_fallback [OF n] wavio_channels_example show ?thesis by simp
qed

end
